theory Spec2Isabelle
  imports Complex_Main "HOL-Library.Word" "HOL-Library.Log_Nat"
begin

section \<open>The family roster of \<open>family_C++.cpp\<close>\<close>

subsection \<open>Objects, the free store and the output stream\<close>

text \<open>
  \<open>class Person\<close> has three fields, \<open>string type\<close>, \<open>string name\<close> and \<open>int age\<close>.
  An \<open>int\<close> is a 32-bit two's complement value: \<open>sint\<close> reads it, \<open>+\<close> wraps.
\<close>

record Person =
  type :: string
  name :: string
  age :: "32 word"

text \<open>
  The roster is a \<open>vector<Person*>\<close>: a sequence of addresses into the free store. The
  program's state is the free store, the next address \<open>new\<close> hands out, and the characters
  written to \<open>cout\<close> so far.
\<close>

type_synonym addr = nat

record world =
  heap :: "addr \<rightharpoonup> Person"
  next_addr :: addr
  cout :: string

text \<open>Using a pointer to no live object is undefined behaviour; the model stops with a fault.\<close>

datatype fault = Invalid_Pointer

subsection \<open>The stream inserters\<close>

text \<open>
  \<open>cout << s\<close> for a string appends its characters, \<open>cout << endl\<close> appends a line feed
  (and flushes, which leaves no trace in the characters written).
\<close>

definition put_string :: "string \<Rightarrow> world \<Rightarrow> world" where
  "put_string s w = w\<lparr>cout := cout w @ s\<rparr>"

definition endl :: "world \<Rightarrow> world" where
  "endl w = w\<lparr>cout := cout w @ [CHR 0x0A]\<rparr>"

text \<open>
  \<open>cout << i\<close> for an \<open>int\<close> writes it in decimal, most significant digit first, with a
  leading minus sign when it is negative (the stream's flags are never changed by the
  program, so base and padding are the defaults).
\<close>

definition digit :: "nat \<Rightarrow> char" where
  "digit d = ''0123456789'' ! d"

fun show_nat :: "nat \<Rightarrow> string" where
  "show_nat n = (if n < 10 then [digit n] else show_nat (n div 10) @ [digit (n mod 10)])"

declare show_nat.simps [simp del]

definition show_int :: "int \<Rightarrow> string" where
  "show_int i = (if i < 0 then CHR ''-'' # show_nat (nat (- i)) else show_nat (nat i))"

definition put_int :: "32 word \<Rightarrow> world \<Rightarrow> world" where
  "put_int i w = put_string (show_int (sint i)) w"

subsection \<open>Double precision\<close>

text \<open>
  A \<open>double\<close> is an IEEE 754 binary64 value: a number with 53 significant bits, an infinity
  or a NaN. Finite values are carried as the rational they denote; the sign of a zero and
  the payload of a NaN are not distinguished. \<open>bexp q\<close> is the binary exponent of a
  positive rational, \<open>round_double\<close> rounds to 53 significant bits, ties to even. The
  exponent range is not modelled: the program divides an \<open>int\<close> by a \<open>size_t\<close>, and such a
  quotient, when it is not zero, has a magnitude between \<open>2\<^sup>-\<^sup>6\<^sup>4\<close> and \<open>2\<^sup>3\<^sup>1\<close>.
\<close>

datatype double = Finite rat | PosInf | NegInf | NaN

definition bexp :: "rat \<Rightarrow> int" where
  "bexp q =
     (let (a, b) = quotient_of q;
          e = int (floorlog 2 (nat a)) - int (floorlog 2 (nat b))
      in if 2 powi e \<le> q then e else e - 1)"

definition round_half_even :: "rat \<Rightarrow> int" where
  "round_half_even m =
     (let f = \<lfloor>m\<rfloor>; d = m - of_int f
      in if d < 1 / 2 then f
         else if 1 / 2 < d then f + 1
         else if even f then f else f + 1)"

definition round_double :: "rat \<Rightarrow> rat" where
  "round_double q =
     (if q = 0 then 0
      else let ulp = 2 powi (bexp \<bar>q\<bar> - 52)
           in sgn q * of_int (round_half_even (\<bar>q\<bar> / ulp)) * ulp)"

text \<open>The conversions \<open>static_cast<double>(int)\<close> and \<open>size_t\<close> to \<open>double\<close>.\<close>

definition double_of_int :: "32 word \<Rightarrow> rat" where
  "double_of_int i = round_double (of_int (sint i))"

definition double_of_size :: "nat \<Rightarrow> rat" where
  "double_of_size n = round_double (of_nat n)"

text \<open>Division of two finite doubles; the divisor of the program is never a negative zero.\<close>

definition double_div :: "rat \<Rightarrow> rat \<Rightarrow> double" where
  "double_div x y =
     (if y = 0 then (if x = 0 then NaN else if 0 < x then PosInf else NegInf)
      else Finite (round_double (x / y)))"

subsection \<open>The class hierarchy\<close>

definition Person :: "string \<Rightarrow> string \<Rightarrow> 32 word \<Rightarrow> Person" where
  "Person t n a = \<lparr>type = t, name = n, age = a\<rparr>"

definition Mother :: "string \<Rightarrow> 32 word \<Rightarrow> Person" where
  "Mother n a = Person ''Mother'' n a"

definition Father :: "string \<Rightarrow> 32 word \<Rightarrow> Person" where
  "Father n a = Person ''Father'' n a"

definition Daughter :: "string \<Rightarrow> 32 word \<Rightarrow> Person" where
  "Daughter n a = Person ''Daughter'' n a"

definition Son :: "string \<Rightarrow> 32 word \<Rightarrow> Person" where
  "Son n a = Person ''Son'' n a"

text \<open>
  The member functions take the address of the object (\<open>this\<close>) and the state, and return
  their result with the state after the call.
\<close>

definition display :: "addr \<Rightarrow> world \<Rightarrow> fault + world" where
  "display this w =
     (case heap w this of
        None \<Rightarrow> Inl Invalid_Pointer
      | Some p \<Rightarrow>
          let w = put_string ''Type: '' w;
              w = put_string (type p) w;
              w = put_string '', Name: '' w;
              w = put_string (name p) w;
              w = put_string '', Age: '' w;
              w = put_int (age p) w
          in Inr (endl w))"

definition getAge :: "addr \<Rightarrow> world \<Rightarrow> fault + 32 word \<times> world" where
  "getAge this w =
     (case heap w this of
        None \<Rightarrow> Inl Invalid_Pointer
      | Some p \<Rightarrow> Inr (age p, w))"

subsection \<open>\<open>displayFamily\<close>\<close>

text \<open>The first loop: every member displays itself, in the order of the vector.\<close>

fun display_loop :: "addr list \<Rightarrow> world \<Rightarrow> fault + world" where
  "display_loop [] w = Inr w"
| "display_loop (member # rest) w =
     (case display member w of
        Inl e \<Rightarrow> Inl e
      | Inr w' \<Rightarrow> display_loop rest w')"

text \<open>
  The second loop: \<open>totalAge += member->getAge()\<close>, in \<open>int\<close> arithmetic. The language
  leaves the overflow of a signed addition undefined; the model takes what the machine's
  addition does, the wrap-around of two's complement.
\<close>

fun age_loop :: "addr list \<Rightarrow> 32 word \<Rightarrow> world \<Rightarrow> fault + 32 word \<times> world" where
  "age_loop [] totalAge w = Inr (totalAge, w)"
| "age_loop (member # rest) totalAge w =
     (case getAge member w of
        Inl e \<Rightarrow> Inl e
      | Inr (a, w') \<Rightarrow> age_loop rest (totalAge + a) w')"

text \<open>
  Lines 49 to 54: the value of the local variable \<open>averageAge\<close>,
  \<open>static_cast<double>(totalAge) / family.size()\<close> with \<open>totalAge\<close> starting at 0.
\<close>

definition averageAge :: "addr list \<Rightarrow> world \<Rightarrow> fault + double \<times> world" where
  "averageAge family w =
     (case age_loop family 0 w of
        Inl e \<Rightarrow> Inl e
      | Inr (totalAge, w') \<Rightarrow>
          Inr (double_div (double_of_int totalAge) (double_of_size (length family)), w'))"

text \<open>
  \<open>cout << averageAge\<close> formats a double with the stream's default precision; that
  conversion belongs to the standard library and is the parameter \<open>show_double\<close>.
\<close>

definition displayFamily :: "(double \<Rightarrow> string) \<Rightarrow> addr list \<Rightarrow> world \<Rightarrow> fault + world" where
  "displayFamily show_double family w =
     (let w = endl (put_string ''Family Members:'' w)
      in case display_loop family w of
           Inl e \<Rightarrow> Inl e
         | Inr w \<Rightarrow>
             (case averageAge family w of
                Inl e \<Rightarrow> Inl e
              | Inr (avg, w) \<Rightarrow>
                  Inr (endl (put_string (show_double avg) (put_string ''Average Age: '' w)))))"

subsection \<open>\<open>main\<close>\<close>

text \<open>
  \<open>new\<close> places the constructed object at the next free address; \<open>delete\<close> ends the
  lifetime of the object at an address. Exhaustion of the free store is not modelled.
\<close>

definition new :: "Person \<Rightarrow> world \<Rightarrow> addr \<times> world" where
  "new p w =
     (next_addr w, w\<lparr>heap := (heap w)(next_addr w \<mapsto> p), next_addr := Suc (next_addr w)\<rparr>)"

definition delete :: "addr \<Rightarrow> world \<Rightarrow> fault + world" where
  "delete a w =
     (case heap w a of
        None \<Rightarrow> Inl Invalid_Pointer
      | Some p \<Rightarrow> Inr (w\<lparr>heap := (heap w)(a := None)\<rparr>))"

fun delete_loop :: "addr list \<Rightarrow> world \<Rightarrow> fault + world" where
  "delete_loop [] w = Inr w"
| "delete_loop (member # rest) w =
     (case delete member w of
        Inl e \<Rightarrow> Inl e
      | Inr w' \<Rightarrow> delete_loop rest w')"

definition push_back :: "addr list \<Rightarrow> addr \<Rightarrow> addr list" where
  "push_back v a = v @ [a]"

definition main :: "(double \<Rightarrow> string) \<Rightarrow> world \<Rightarrow> fault + int \<times> world" where
  "main show_double w =
     (let family = [];
          (p, w) = new (Mother ''Alice'' 45) w; family = push_back family p;
          (p, w) = new (Father ''Bob'' 48) w; family = push_back family p;
          (p, w) = new (Daughter ''Charlotte'' 15) w; family = push_back family p;
          (p, w) = new (Son ''David'' 12) w; family = push_back family p
      in case displayFamily show_double family w of
           Inl e \<Rightarrow> Inl e
         | Inr w \<Rightarrow>
             (case delete_loop family w of
                Inl e \<Rightarrow> Inl e
              | Inr w \<Rightarrow> Inr (0, w)))"

text \<open>The state in which the program starts: no object, nothing written.\<close>

definition start :: world where
  "start = \<lparr>heap = Map.empty, next_addr = 0, cout = []\<rparr>"

subsection \<open>The description and the lines the specification speaks of\<close>

text \<open>
  The specification's \<open>describe()\<close>: \<open>"Type: <role>, Name: <name>, Age: <age>"\<close>, the age
  written as the decimal numeral of the signed value. \<open>unlines\<close> is the text made of the
  given lines, each closed by a line feed. \<open>wrap32\<close> is the two's complement reading of
  an integer reduced modulo \<open>2\<^sup>3\<^sup>2\<close>.
\<close>

definition describe :: "Person \<Rightarrow> string" where
  "describe p = ''Type: '' @ type p @ '', Name: '' @ name p @ '', Age: '' @ show_int (sint (age p))"

definition unlines :: "string list \<Rightarrow> string" where
  "unlines ls = concat (map (\<lambda>l. l @ [CHR 0x0A]) ls)"

definition wrap32 :: "int \<Rightarrow> int" where
  "wrap32 k = (k + 2 ^ 31) mod 2 ^ 32 - 2 ^ 31"

subsection \<open>The roster of the driver\<close>

text \<open>
  The state of \<open>main\<close> at its call of \<open>displayFamily\<close>: the four objects, allocated in
  the order of the source. The vector then holds the addresses 0, 1, 2 and 3.
\<close>

definition populated :: world where
  "populated =
     snd (new (Son ''David'' 12)
       (snd (new (Daughter ''Charlotte'' 15)
         (snd (new (Father ''Bob'' 48)
           (snd (new (Mother ''Alice'' 45) start)))))))"

section \<open>The decimal numerals\<close>

text \<open>
  The digits \<open>show_nat\<close> writes are those of the number: read back from the left in base
  ten, they give it again.
\<close>

lemma digit_code: "d < 10 \<Longrightarrow> of_char (digit d) = 48 + d"
proof -
  assume "d < 10"
  then have "d = 0 \<or> d = 1 \<or> d = 2 \<or> d = 3 \<or> d = 4 \<or> d = 5 \<or> d = 6 \<or> d = 7
    \<or> d = 8 \<or> d = 9" by arith
  then show ?thesis by (elim disjE) (simp_all add: digit_def)
qed

lemma show_nat_reads_back:
  "foldl (\<lambda>acc c. 10 * acc + (of_char c - 48)) 0 (show_nat n) = n"
proof (induction n rule: show_nat.induct)
  case (1 n)
  show ?case
  proof (cases "n < 10")
    case True
    then show ?thesis by (subst show_nat.simps) (simp add: digit_code)
  next
    case False
    have "n mod 10 < 10" by simp
    then have "of_char (digit (n mod 10)) = 48 + n mod 10" by (rule digit_code)
    then show ?thesis using False "1.IH" by (subst show_nat.simps) simp
  qed
qed

lemma show_int_examples:
  "show_int 0 = ''0''" "show_int 7 = ''7''" "show_int (- 5) = ''-5''"
  "show_int 2147483647 = ''2147483647''" "show_int (- 2147483648) = ''-2147483648''"
  by (simp_all add: show_int_def show_nat.simps digit_def)

section \<open>Rounding to double precision\<close>

lemma round_half_even_of_int: "round_half_even (of_int k) = k"
  by (simp add: round_half_even_def)

lemma round_half_even_error: "\<bar>of_int (round_half_even m) - m\<bar> \<le> 1 / 2"
proof -
  have "of_int \<lfloor>m\<rfloor> \<le> m" "m < of_int \<lfloor>m\<rfloor> + 1" by linarith+
  then show ?thesis
    by (auto simp: round_half_even_def Let_def abs_le_iff)
qed

lemma bexp_le:
  assumes "0 < q"
  shows "2 powi bexp q \<le> q"
proof -
  obtain a b where ab: "quotient_of q = (a, b)" by (cases "quotient_of q")
  have b: "0 < b" using ab by (rule quotient_of_denom_pos)
  have q: "q = of_int a / of_int b" using ab by (rule quotient_of_div)
  have a: "0 < a" using assms b q by (simp add: zero_less_divide_iff)
  define la lb where "la = floorlog 2 (nat a)" and "lb = floorlog 2 (nat b)"
  have la: "2 ^ (la - 1) \<le> nat a" and lb: "nat b < 2 ^ lb"
    using floorlog_bounds [of "nat a" 2] floorlog_bounds [of "nat b" 2] a b
    by (simp_all add: la_def lb_def)
  have la1: "1 \<le> la" using a by (simp add: la_def floorlog_def)
  have "(2::rat) ^ (la - 1) \<le> of_int a"
  proof -
    have "(of_nat (2 ^ (la - 1)) :: rat) \<le> of_nat (nat a)" using la by (simp only: of_nat_le_iff)
    then show ?thesis using a by simp
  qed
  moreover have "of_int b \<le> (2::rat) ^ lb"
  proof -
    have "(of_nat (nat b) :: rat) \<le> of_nat (2 ^ lb)" using lb by (simp only: of_nat_le_iff less_imp_le)
    then show ?thesis using b by simp
  qed
  ultimately have "(2::rat) ^ (la - 1) / 2 ^ lb \<le> of_int a / of_int b"
    using a b by (intro frac_le) simp_all
  moreover have "(2::rat) powi (int la - int lb - 1) = 2 ^ (la - 1) / 2 ^ lb"
  proof -
    have eq: "int la - int lb - 1 = int (la - 1) - int lb" using la1 by linarith
    have "(2::rat) powi (int (la - 1) - int lb) = 2 powi int (la - 1) / 2 powi int lb"
      by (rule power_int_diff) simp
    also have "\<dots> = 2 ^ (la - 1) / 2 ^ lb" by (simp only: power_int_of_nat)
    finally show ?thesis by (simp only: eq)
  qed
  ultimately have low: "(2::rat) powi (int la - int lb - 1) \<le> q" using q by simp
  show ?thesis
    using low by (simp add: bexp_def ab Let_def la_def lb_def)
qed

lemma bexp_gt:
  assumes "0 < q"
  shows "q < 2 powi (bexp q + 1)"
proof -
  obtain a b where ab: "quotient_of q = (a, b)" by (cases "quotient_of q")
  have b: "0 < b" using ab by (rule quotient_of_denom_pos)
  have q: "q = of_int a / of_int b" using ab by (rule quotient_of_div)
  have a: "0 < a" using assms b q by (simp add: zero_less_divide_iff)
  define la lb where "la = floorlog 2 (nat a)" and "lb = floorlog 2 (nat b)"
  have la: "nat a < 2 ^ la" and lb: "2 ^ (lb - 1) \<le> nat b"
    using floorlog_bounds [of "nat a" 2] floorlog_bounds [of "nat b" 2] a b
    by (simp_all add: la_def lb_def)
  have lb1: "1 \<le> lb" using b by (simp add: lb_def floorlog_def)
  have "of_int a < (2::rat) ^ la"
  proof -
    have "(of_nat (nat a) :: rat) < of_nat (2 ^ la)" using la by (simp only: of_nat_less_iff)
    then show ?thesis using a by simp
  qed
  moreover have "(2::rat) ^ (lb - 1) \<le> of_int b"
  proof -
    have "(of_nat (2 ^ (lb - 1)) :: rat) \<le> of_nat (nat b)" using lb by (simp only: of_nat_le_iff)
    then show ?thesis using b by simp
  qed
  ultimately have "of_int a / of_int b < (2::rat) ^ la / 2 ^ (lb - 1)"
    using a b by (intro frac_less) simp_all
  moreover have "(2::rat) powi (int la - int lb + 1) = 2 ^ la / 2 ^ (lb - 1)"
  proof -
    have eq: "int la - int lb + 1 = int la - int (lb - 1)" using lb1 by linarith
    have "(2::rat) powi (int la - int (lb - 1)) = 2 powi int la / 2 powi int (lb - 1)"
      by (rule power_int_diff) simp
    also have "\<dots> = 2 ^ la / 2 ^ (lb - 1)" by (simp only: power_int_of_nat)
    finally show ?thesis by (simp only: eq)
  qed
  ultimately have up: "q < 2 powi (int la - int lb + 1)" using q by simp
  show ?thesis
  proof (cases "2 powi (int la - int lb) \<le> q")
    case True
    then show ?thesis using up by (simp add: bexp_def ab Let_def la_def lb_def)
  next
    case False
    then show ?thesis by (simp add: bexp_def ab Let_def la_def lb_def)
  qed
qed

lemma round_double_error: "\<bar>round_double q - q\<bar> \<le> \<bar>q\<bar> / 2 ^ 53"
proof (cases "q = 0")
  case True
  then show ?thesis by (simp add: round_double_def)
next
  case False
  define e where "e = bexp \<bar>q\<bar>"
  define ulp :: rat where "ulp = 2 powi (e - 52)"
  define r where "r = round_half_even (\<bar>q\<bar> / ulp)"
  have ulp: "0 < ulp" by (simp add: ulp_def)
  have rd: "round_double q = sgn q * of_int r * ulp"
    using False by (simp add: round_double_def Let_def e_def ulp_def r_def)
  have "sgn q * (of_int r * ulp - \<bar>q\<bar>) = sgn q * of_int r * ulp - sgn q * \<bar>q\<bar>"
    by (simp add: algebra_simps)
  then have "round_double q - q = sgn q * (of_int r * ulp - \<bar>q\<bar>)"
    by (simp only: rd sgn_mult_abs)
  then have "\<bar>round_double q - q\<bar> = \<bar>of_int r * ulp - \<bar>q\<bar>\<bar>"
    using False by (simp add: abs_mult abs_sgn_eq)
  also have "of_int r * ulp - \<bar>q\<bar> = (of_int r - \<bar>q\<bar> / ulp) * ulp"
    using ulp by (simp add: field_simps)
  also have "\<bar>\<dots>\<bar> = \<bar>of_int r - \<bar>q\<bar> / ulp\<bar> * ulp"
    using ulp by (simp add: abs_mult)
  also have "\<dots> \<le> 1 / 2 * ulp"
    using round_half_even_error [of "\<bar>q\<bar> / ulp"] ulp
    by (intro mult_right_mono) (simp_all add: r_def)
  also have "1 / 2 * ulp = 2 powi e / 2 ^ 53"
    by (simp add: ulp_def power_int_diff)
  also have "\<dots> \<le> \<bar>q\<bar> / 2 ^ 53"
    using bexp_le [of "\<bar>q\<bar>"] False by (simp add: e_def divide_right_mono)
  finally show ?thesis .
qed

lemma round_double_of_int:
  assumes "\<bar>k\<bar> \<le> 2 ^ 53"
  shows "round_double (of_int k) = of_int k"
proof (cases "k = 0")
  case True
  then show ?thesis by (simp add: round_double_def)
next
  case False
  define q :: rat where "q = of_int k"
  define e where "e = bexp \<bar>q\<bar>"
  have q0: "q \<noteq> 0" using False by (simp add: q_def)
  have "2 powi e \<le> \<bar>q\<bar>" using bexp_le [of "\<bar>q\<bar>"] q0 by (simp add: e_def)
  moreover have "\<bar>q\<bar> \<le> 2 ^ 53"
  proof -
    have "(of_int \<bar>k\<bar> :: rat) \<le> of_int (2 ^ 53)" using assms by (simp only: of_int_le_iff)
    then show ?thesis by (simp add: q_def)
  qed
  ultimately have "(2::rat) powi e \<le> 2 powi 53" by simp
  then have e53: "e \<le> 53" using power_int_le_imp_le_exp [of "2::rat" e 53] by simp
  define ulp :: rat where "ulp = 2 powi (e - 52)"
  have ulp: "0 < ulp" by (simp add: ulp_def)
  have "\<exists>j::int. \<bar>q\<bar> / ulp = of_int j"
  proof (cases "e = 53")
    case True
    then have "\<bar>q\<bar> = 2 ^ 53" using \<open>2 powi e \<le> \<bar>q\<bar>\<close> \<open>\<bar>q\<bar> \<le> 2 ^ 53\<close> by simp
    then have "\<bar>q\<bar> / ulp = of_int (2 ^ 52)" using True by (simp add: ulp_def)
    then show ?thesis ..
  next
    case False
    then have "0 \<le> 52 - e" using e53 by simp
    then have "(2::rat) powi (52 - e) = 2 ^ nat (52 - e)" by (simp add: power_int_def)
    moreover have "\<bar>q\<bar> / ulp = \<bar>q\<bar> * 2 powi (52 - e)"
      using power_int_minus [of "2::rat" "e - 52"] by (simp add: ulp_def field_simps)
    ultimately have "\<bar>q\<bar> / ulp = of_int (\<bar>k\<bar> * 2 ^ nat (52 - e))" by (simp add: q_def)
    then show ?thesis ..
  qed
  then obtain j :: int where j: "\<bar>q\<bar> / ulp = of_int j" ..
  have "round_double q = sgn q * of_int (round_half_even (\<bar>q\<bar> / ulp)) * ulp"
    using q0 by (simp add: round_double_def Let_def e_def ulp_def)
  also have "\<dots> = sgn q * (\<bar>q\<bar> / ulp) * ulp"
    by (simp only: j round_half_even_of_int)
  also have "\<dots> = sgn q * \<bar>q\<bar>" using ulp by simp
  also have "\<dots> = q" by (rule sgn_mult_abs)
  finally show ?thesis by (simp add: q_def)
qed

lemma round_double_pos:
  assumes "0 < q"
  shows "0 < round_double q"
proof -
  have "\<bar>round_double q - q\<bar> \<le> q / 2 ^ 53" using round_double_error [of q] assms by simp
  moreover have "q / 2 ^ 53 < q" using assms by (simp add: field_simps)
  ultimately show ?thesis by linarith
qed

lemma quotient_error:
  fixes t n :: rat
  assumes "0 < n"
  shows "\<bar>round_double (t / round_double n) - t / n\<bar> \<le> \<bar>t / n\<bar> / 2 ^ 51"
proof -
  define u :: rat where "u = 1 / 2 ^ 53"
  define n' where "n' = round_double n"
  define v where "v = round_double (t / n')"
  have u: "0 < u" "u \<le> 1 / 2" by (simp_all add: u_def)
  have n': "\<bar>n' - n\<bar> \<le> n * u" using round_double_error [of n] assms by (simp add: n'_def u_def)
  then have n'_low: "n * (1 - u) \<le> n'" by (simp add: abs_le_iff algebra_simps)
  have "n * u \<le> n * (1 / 2)" using u assms by (intro mult_left_mono) simp_all
  then have half: "n / 2 \<le> n'" using n'_low by (simp add: algebra_simps)
  then have n'_pos: "0 < n'" using assms by linarith
  have e1: "\<bar>v - t / n'\<bar> \<le> \<bar>t / n'\<bar> * u"
    using round_double_error [of "t / n'"] by (simp add: v_def u_def)
  have inv: "1 / n' \<le> 2 / n" using half assms n'_pos by (simp add: field_simps)
  have tn': "\<bar>t / n'\<bar> \<le> 2 * \<bar>t / n\<bar>"
  proof -
    have "\<bar>t / n'\<bar> = \<bar>t\<bar> * (1 / n')" using n'_pos by simp
    also have "\<dots> \<le> \<bar>t\<bar> * (2 / n)" using inv by (intro mult_left_mono) simp_all
    also have "\<dots> = 2 * \<bar>t / n\<bar>" using assms by simp
    finally show ?thesis .
  qed
  have e2: "\<bar>t / n' - t / n\<bar> \<le> 2 * \<bar>t / n\<bar> * u"
  proof -
    have "t / n' - t / n = (t / n') * ((n - n') / n)"
      using assms n'_pos by (simp add: field_simps)
    then have "\<bar>t / n' - t / n\<bar> = \<bar>t / n'\<bar> * (\<bar>n' - n\<bar> / n)"
      using assms by (simp add: abs_mult abs_minus_commute)
    also have "\<dots> \<le> (2 * \<bar>t / n\<bar>) * u"
    proof (intro mult_mono tn')
      show "\<bar>n' - n\<bar> / n \<le> u" using n' assms by (simp add: field_simps)
    qed (use u assms in \<open>simp_all add: zero_le_divide_iff\<close>)
    finally show ?thesis .
  qed
  have "\<bar>v - t / n\<bar> \<le> \<bar>v - t / n'\<bar> + \<bar>t / n' - t / n\<bar>" by linarith
  also have "\<dots> \<le> \<bar>t / n'\<bar> * u + 2 * \<bar>t / n\<bar> * u" using e1 e2 by linarith
  also have "\<dots> \<le> 2 * \<bar>t / n\<bar> * u + 2 * \<bar>t / n\<bar> * u"
  proof -
    have "\<bar>t / n'\<bar> * u \<le> (2 * \<bar>t / n\<bar>) * u"
      using tn' u by (intro mult_right_mono) simp_all
    then show ?thesis by linarith
  qed
  also have "\<dots> = \<bar>t / n\<bar> / 2 ^ 51" by (simp add: u_def)
  finally show ?thesis by (simp add: v_def n'_def)
qed

section \<open>The sum of the ages in \<open>int\<close> arithmetic\<close>

lemma word_sum_ages:
  "sum_list (map age ps) = (word_of_int (\<Sum>p\<leftarrow>ps. sint (age p)) :: 32 word)"
  by (induction ps) simp_all

lemma sint_sum_ages:
  "sint (sum_list (map age ps) :: 32 word) = wrap32 (\<Sum>p\<leftarrow>ps. sint (age p))"
  by (simp add: word_sum_ages wrap32_def int_word_sint)

lemma wrap32_id: "- (2 ^ 31) \<le> k \<Longrightarrow> k < 2 ^ 31 \<Longrightarrow> wrap32 k = k"
  by (simp add: wrap32_def)

lemma wrap32_range: "- (2 ^ 31) \<le> wrap32 k \<and> wrap32 k < 2 ^ 31"
  unfolding wrap32_def using pos_mod_bound [of "2 ^ 32" "k + 2 ^ 31"] pos_mod_sign [of "2 ^ 32" "k + 2 ^ 31"]
  by simp

lemma double_of_int_exact: "double_of_int i = of_int (sint i)"
proof -
  have "- (2 ^ 31) \<le> sint i" "sint i < 2 ^ 31" using sint_ge [of i] sint_lt [of i] by simp_all
  then have "\<bar>sint i\<bar> \<le> 2 ^ 53" by simp
  then show ?thesis unfolding double_of_int_def by (rule round_double_of_int)
qed

section \<open>The member functions and the two loops\<close>

lemma display_Some:
  assumes "heap w this = Some p"
  shows "display this w = Inr (w\<lparr>cout := cout w @ describe p @ [CHR 0x0A]\<rparr>)"
  using assms by (simp add: display_def put_string_def put_int_def endl_def describe_def)

lemma getAge_Some:
  assumes "heap w this = Some p"
  shows "getAge this w = Inr (age p, w)"
  using assms by (simp add: getAge_def)

lemma display_loop_render:
  assumes "map (heap w) family = map Some ps"
  shows "display_loop family w = Inr (w\<lparr>cout := cout w @ unlines (map describe ps)\<rparr>)"
  using assms
proof (induction family arbitrary: w ps)
  case Nil
  then show ?case by (simp add: unlines_def)
next
  case (Cons member rest)
  then obtain p ps' where ps: "ps = p # ps'" and p: "heap w member = Some p"
    and rest: "map (heap w) rest = map Some ps'"
    by (cases ps) auto
  define w' where "w' = w\<lparr>cout := cout w @ describe p @ [CHR 0x0A]\<rparr>"
  have "map (heap w') rest = map Some ps'" using rest by (simp add: w'_def)
  then have "display_loop rest w' = Inr (w'\<lparr>cout := cout w' @ unlines (map describe ps')\<rparr>)"
    by (rule Cons.IH)
  then show ?case
    using display_Some [OF p] by (simp add: ps w'_def unlines_def)
qed

lemma age_loop_sum:
  assumes "map (heap w) family = map Some ps"
  shows "age_loop family totalAge w = Inr (totalAge + sum_list (map age ps), w)"
  using assms
proof (induction family arbitrary: totalAge ps)
  case Nil
  then show ?case by simp
next
  case (Cons member rest)
  then obtain p ps' where ps: "ps = p # ps'" and p: "heap w member = Some p"
    and rest: "map (heap w) rest = map Some ps'"
    by (cases ps) auto
  show ?case
    using Cons.IH [OF rest, of "totalAge + age p"] getAge_Some [OF p]
    by (simp add: ps add.assoc)
qed

lemma display_frame:
  assumes "display this w = Inr w'"
  shows "\<exists>p. heap w this = Some p \<and> w' = w\<lparr>cout := cout w @ describe p @ [CHR 0x0A]\<rparr>"
proof (cases "heap w this")
  case None
  then show ?thesis using assms by (simp add: display_def)
next
  case (Some p)
  then show ?thesis using assms display_Some [OF Some] by simp
qed

lemma getAge_frame:
  assumes "getAge this w = Inr (a, w')"
  shows "\<exists>p. heap w this = Some p \<and> a = age p \<and> w' = w"
  using assms by (auto simp: getAge_def split: option.splits)

lemma display_loop_valid:
  assumes "display_loop family w = Inr w'"
  shows "\<exists>ps. map (heap w) family = map Some ps"
  using assms
proof (induction family arbitrary: w)
  case Nil
  then show ?case by simp
next
  case (Cons member rest)
  from Cons.prems obtain w1 where d: "display member w = Inr w1" and r: "display_loop rest w1 = Inr w'"
    by (auto split: sum.splits)
  from display_frame [OF d] obtain p where p: "heap w member = Some p"
    and w1: "w1 = w\<lparr>cout := cout w @ describe p @ [CHR 0x0A]\<rparr>" by blast
  from Cons.IH [OF r] obtain ps where "map (heap w1) rest = map Some ps" ..
  then have "map (heap w) (member # rest) = map Some (p # ps)" using p by (simp add: w1)
  then show ?case ..
qed

lemma averageAge_value:
  assumes "map (heap w) family = map Some ps"
  shows "averageAge family w =
    Inr (double_div (of_int (wrap32 (\<Sum>p\<leftarrow>ps. sint (age p)))) (double_of_size (length ps)), w)"
proof -
  have len: "length family = length ps" using assms by (metis length_map)
  have conv: "double_of_int (sum_list (map age ps)) = of_int (wrap32 (\<Sum>p\<leftarrow>ps. sint (age p)))"
    by (simp only: double_of_int_exact sint_sum_ages)
  show ?thesis
    using age_loop_sum [OF assms, of 0] by (simp add: averageAge_def len conv)
qed

lemma displayFamily_output:
  assumes "map (heap w) family = map Some ps"
  shows "displayFamily show_double family w =
    Inr (w\<lparr>cout := cout w @ unlines (''Family Members:'' # map describe ps @
      [''Average Age: '' @ show_double (double_div (of_int (wrap32 (\<Sum>p\<leftarrow>ps. sint (age p))))
         (double_of_size (length ps)))])\<rparr>)"
proof -
  define w1 where "w1 = endl (put_string ''Family Members:'' w)"
  define w2 where "w2 = w1\<lparr>cout := cout w1 @ unlines (map describe ps)\<rparr>"
  have h1: "map (heap w1) family = map Some ps" using assms by (simp add: w1_def endl_def put_string_def)
  have h2: "map (heap w2) family = map Some ps" using h1 by (simp add: w2_def)
  have l: "display_loop family w1 = Inr w2" using display_loop_render [OF h1] by (simp add: w2_def)
  show ?thesis
    unfolding displayFamily_def Let_def w1_def [symmetric]
    by (simp add: l averageAge_value [OF h2])
       (simp add: w2_def w1_def endl_def put_string_def unlines_def)
qed

lemma displayFamily_valid:
  assumes "displayFamily show_double family w = Inr w'"
  shows "\<exists>ps. map (heap w) family = map Some ps"
proof -
  define w1 where "w1 = endl (put_string ''Family Members:'' w)"
  from assms obtain w2 where "display_loop family w1 = Inr w2"
    unfolding displayFamily_def Let_def w1_def [symmetric] by (auto split: sum.splits)
  from display_loop_valid [OF this] show ?thesis by (simp add: w1_def endl_def put_string_def)
qed

lemma populated_heap:
  "map (heap populated) [0, 1, 2, 3] =
     map Some [Mother ''Alice'' 45, Father ''Bob'' 48, Daughter ''Charlotte'' 15, Son ''David'' 12]"
  by (simp add: populated_def new_def start_def)

section \<open>What the calls leave unchanged\<close>

lemma age_loop_frame:
  assumes "age_loop family totalAge w = Inr (t, w')"
  shows "w' = w"
  using assms
proof (induction family arbitrary: totalAge)
  case Nil
  then show ?case by simp
next
  case (Cons member rest)
  from Cons.prems obtain a w1 where g: "getAge member w = Inr (a, w1)"
    and r: "age_loop rest (totalAge + a) w1 = Inr (t, w')"
    by (auto split: sum.splits)
  from getAge_frame [OF g] have "w1 = w" by blast
  with r Cons.IH show ?case by blast
qed

lemma averageAge_frame:
  assumes "averageAge family w = Inr (d, w')"
  shows "w' = w"
  using assms age_loop_frame by (auto simp: averageAge_def split: sum.splits)

lemma displayFamily_frame:
  assumes "displayFamily show_double family w = Inr w'"
  shows "\<exists>out. w' = w\<lparr>cout := cout w @ out\<rparr>"
proof -
  from displayFamily_valid [OF assms] obtain ps where "map (heap w) family = map Some ps" ..
  from displayFamily_output [OF this, of show_double] assms show ?thesis by auto
qed

section \<open>The run of \<open>main\<close>\<close>

lemma populated_eq:
  "populated = \<lparr>heap = [0 \<mapsto> Mother ''Alice'' 45, 1 \<mapsto> Father ''Bob'' 48,
       2 \<mapsto> Daughter ''Charlotte'' 15, 3 \<mapsto> Son ''David'' 12], next_addr = 4, cout = []\<rparr>"
  by (simp add: populated_def new_def start_def eval_nat_numeral)

lemma main_unfold:
  "main show_double start =
     (case displayFamily show_double [0, 1, 2, 3] populated of
        Inl e \<Rightarrow> Inl e
      | Inr w \<Rightarrow> (case delete_loop [0, 1, 2, 3] w of Inl e \<Rightarrow> Inl e | Inr w \<Rightarrow> Inr (0, w)))"
  by (simp add: main_def populated_def new_def start_def push_back_def Let_def eval_nat_numeral
      cong: sum.case_cong)

lemma delete_loop_populated:
  "delete_loop [0, 1, 2, 3] (populated\<lparr>cout := out\<rparr>) =
     Inr \<lparr>heap = Map.empty, next_addr = 4, cout = out\<rparr>"
  by (simp add: populated_eq delete_def)

lemma driver_average:
  "double_div
     (of_int (wrap32 (\<Sum>p\<leftarrow>[Mother ''Alice'' 45, Father ''Bob'' 48, Daughter ''Charlotte'' 15,
        Son ''David'' 12]. sint (age p))))
     (double_of_size (length [Mother ''Alice'' 45, Father ''Bob'' 48, Daughter ''Charlotte'' 15,
        Son ''David'' 12])) = Finite 30"
proof -
  have "double_of_size 4 = of_int 4" unfolding double_of_size_def
    using round_double_of_int [of 4] by simp
  then have n: "double_of_size (length [Mother ''Alice'' 45, Father ''Bob'' 48,
      Daughter ''Charlotte'' 15, Son ''David'' 12]) = 4" by (simp add: eval_nat_numeral)
  have r: "round_double (of_int 30) = of_int 30" by (rule round_double_of_int) simp
  have s: "wrap32 (\<Sum>p\<leftarrow>[Mother ''Alice'' 45, Father ''Bob'' 48, Daughter ''Charlotte'' 15,
        Son ''David'' 12]. sint (age p)) = 120"
    by (simp add: wrap32_def Mother_def Father_def Daughter_def Son_def Person_def)
  show ?thesis unfolding n s using r by (simp add: double_div_def)
qed

lemma driver_lines:
  "map describe [Mother ''Alice'' 45, Father ''Bob'' 48, Daughter ''Charlotte'' 15, Son ''David'' 12] =
     [''Type: Mother, Name: Alice, Age: 45'',
      ''Type: Father, Name: Bob, Age: 48'',
      ''Type: Daughter, Name: Charlotte, Age: 15'',
      ''Type: Son, Name: David, Age: 12'']"
  by (simp add: describe_def Mother_def Father_def Daughter_def Son_def Person_def
      show_int_def show_nat.simps digit_def)

lemma populated_average: "averageAge [0, 1, 2, 3] populated = Inr (Finite 30, populated)"
  using averageAge_value [OF populated_heap] by (simp only: driver_average)

lemma populated_display:
  "displayFamily show_double [0, 1, 2, 3] populated =
     Inr (populated\<lparr>cout := unlines
       [''Family Members:'',
        ''Type: Mother, Name: Alice, Age: 45'',
        ''Type: Father, Name: Bob, Age: 48'',
        ''Type: Daughter, Name: Charlotte, Age: 15'',
        ''Type: Son, Name: David, Age: 12'',
        ''Average Age: '' @ show_double (Finite 30)]\<rparr>)"
proof -
  have c: "cout populated = []" by (simp add: populated_eq)
  have "displayFamily show_double [0, 1, 2, 3] populated =
     Inr (populated\<lparr>cout := cout populated @ unlines (''Family Members:'' #
       map describe [Mother ''Alice'' 45, Father ''Bob'' 48, Daughter ''Charlotte'' 15, Son ''David'' 12] @
       [''Average Age: '' @ show_double (Finite 30)])\<rparr>)"
    using displayFamily_output [OF populated_heap, of show_double] by (simp only: driver_average)
  then show ?thesis by (simp only: driver_lines c append_Nil append_Cons)
qed

lemma populated_cout: "cout populated = []"
  by (simp add: populated_eq)

lemma populated_display_30:
  "displayFamily (\<lambda>d. ''30'') [0, 1, 2, 3] populated = Inr (populated\<lparr>cout := unlines
       [''Family Members:'',
        ''Type: Mother, Name: Alice, Age: 45'',
        ''Type: Father, Name: Bob, Age: 48'',
        ''Type: Daughter, Name: Charlotte, Age: 15'',
        ''Type: Son, Name: David, Age: 12'',
        ''Average Age: 30'']\<rparr>)"
  using populated_display [of "(\<lambda>d. ''30'')"] by simp

lemma populated_0: "heap populated 0 = Some (Mother ''Alice'' 45)"
  by (simp add: populated_eq)

lemma populated_display_0:
  "display 0 populated = Inr (populated\<lparr>cout := (''Type: Mother, Name: Alice, Age: 45'' @ [CHR 0x0A])\<rparr>)"
  using display_Some [OF populated_0] driver_lines by (simp add: populated_cout)

lemma populated_display_1:
  "display 1 populated = Inr (populated\<lparr>cout := (''Type: Father, Name: Bob, Age: 48'' @ [CHR 0x0A])\<rparr>)"
proof -
  have "heap populated 1 = Some (Father ''Bob'' 48)" by (simp add: populated_eq)
  from display_Some [OF this] driver_lines show ?thesis by (simp add: populated_cout)
qed

lemma populated_getAge_1: "getAge 1 populated = Inr (48, populated)"
proof -
  have "heap populated 1 = Some (Father ''Bob'' 48)" by (simp add: populated_eq)
  from getAge_Some [OF this] show ?thesis by (simp add: Father_def Person_def)
qed

section \<open>The average\<close>

lemma double_of_size_pos: "0 < n \<Longrightarrow> 0 < double_of_size n"
  unfolding double_of_size_def by (rule round_double_pos) simp

lemma double_of_size_exact: "n \<le> 2 ^ 53 \<Longrightarrow> double_of_size n = of_nat n"
proof -
  assume "n \<le> 2 ^ 53"
  then have "int n \<le> 2 ^ 53" by (metis of_nat_le_iff of_nat_numeral of_nat_power)
  then have "round_double (of_int (int n)) = of_int (int n)" by (intro round_double_of_int) simp
  then show ?thesis by (simp add: double_of_size_def)
qed

lemma averageAge_finite:
  assumes "map (heap w) family = map Some ps" and "ps \<noteq> []"
  shows "averageAge family w =
    Inr (Finite (round_double (of_int (wrap32 (\<Sum>p\<leftarrow>ps. sint (age p))) / double_of_size (length ps))), w)"
proof -
  have "0 < double_of_size (length ps)" using assms(2) by (intro double_of_size_pos) simp
  then show ?thesis using averageAge_value [OF assms(1)] by (simp add: double_div_def)
qed

lemma average_error:
  assumes "ps \<noteq> []"
  shows "\<bar>round_double (of_int t / double_of_size (length ps)) - of_int t / of_nat (length ps)\<bar>
           \<le> \<bar>of_int t / of_nat (length ps)\<bar> / 2 ^ 51"
  unfolding double_of_size_def using assms by (intro quotient_error) simp

lemma driver_sum:
  "(\<Sum>p\<leftarrow>[Mother ''Alice'' 45, Father ''Bob'' 48, Daughter ''Charlotte'' 15, Son ''David'' 12].
      sint (age p)) = 120"
  by (simp add: Mother_def Father_def Daughter_def Son_def Person_def)

text \<open>Two members whose ages add up to \<open>2\<^sup>3\<^sup>1\<close>, one more than the largest \<open>int\<close>.\<close>

lemma overflow_heap:
  "map (heap \<lparr>heap = [0 \<mapsto> Mother ''A'' 2147483647, 1 \<mapsto> Son ''B'' 1], next_addr = 2, cout = []\<rparr>)
     [0, 1] = map Some [Mother ''A'' 2147483647, Son ''B'' 1]"
  by simp

lemma overflow_sum:
  "(\<Sum>p\<leftarrow>[Mother ''A'' 2147483647, Son ''B'' 1]. sint (age p)) = 2147483648"
  by (simp add: Mother_def Son_def Person_def)

lemma overflow_average:
  "averageAge [0, 1]
     \<lparr>heap = [0 \<mapsto> Mother ''A'' 2147483647, 1 \<mapsto> Son ''B'' 1], next_addr = 2, cout = []\<rparr> =
   Inr (Finite (- 1073741824),
     \<lparr>heap = [0 \<mapsto> Mother ''A'' 2147483647, 1 \<mapsto> Son ''B'' 1], next_addr = 2, cout = []\<rparr>)"
proof -
  have "double_of_size 2 = 2" using double_of_size_exact [of 2] by simp
  then have n: "double_of_size (length [Mother ''A'' 2147483647, Son ''B'' 1]) = 2"
    by (simp add: numeral_2_eq_2)
  have t: "wrap32 2147483648 = - 2147483648" by (simp add: wrap32_def)
  have r: "round_double (of_int (- 1073741824)) = of_int (- 1073741824)"
    by (rule round_double_of_int) simp
  have "double_div (of_int (- 2147483648)) 2 = Finite (- 1073741824)"
    using r by (simp add: double_div_def)
  then show ?thesis
    using averageAge_value [OF overflow_heap] by (simp only: overflow_sum t n)
qed

lemma wrapped_average_differs:
  assumes "ps \<noteq> []" and "wrap32 S \<noteq> S"
  shows "round_double (of_int (wrap32 S) / double_of_size (length ps)) \<noteq> of_int S / of_nat (length ps)"
proof
  define n :: rat where "n = of_nat (length ps)"
  define t where "t = wrap32 S"
  assume "round_double (of_int (wrap32 S) / double_of_size (length ps)) = of_int S / of_nat (length ps)"
  then have "\<bar>of_int S / n - of_int t / n\<bar> \<le> \<bar>of_int t / n\<bar> / 2 ^ 51"
    using average_error [OF assms(1), of t] by (simp add: n_def t_def)
  moreover have n: "0 < n" using assms(1) by (simp add: n_def)
  moreover have "of_int S / n - of_int t / n = (of_int S - of_int t) / n" by (simp add: diff_divide_distrib)
  ultimately have "\<bar>of_int S - of_int t\<bar> / n \<le> \<bar>of_int t\<bar> / 2 ^ 51 / n" by simp
  moreover have "i / n \<le> j / n \<Longrightarrow> i \<le> j" for i j :: rat
    using n by (simp add: divide_le_cancel)
  ultimately have le: "\<bar>(of_int S :: rat) - of_int t\<bar> \<le> \<bar>of_int t\<bar> / 2 ^ 51"
    by blast
  have "\<bar>t\<bar> \<le> 2 ^ 31" using wrap32_range [of S] unfolding t_def by linarith
  then have "(of_int \<bar>t\<bar> :: rat) \<le> of_int (2 ^ 31)" by (simp only: of_int_le_iff)
  then have "\<bar>of_int t :: rat\<bar> / 2 ^ 51 < 1" by simp
  then have "\<bar>(of_int S :: rat) - of_int t\<bar> < 1" using le by linarith
  then have "(of_int \<bar>S - t\<bar> :: rat) < of_int 1" by simp
  then have "\<bar>S - t\<bar> < 1" by (simp only: of_int_less_iff)
  then show False using assms(2) by (simp add: t_def)
qed

lemma averageAge_pinned:
  assumes "map (heap w) family = map Some ps" and "family \<noteq> []"
  shows "\<exists>v. averageAge family w = Inr (Finite v, w)
     \<and> \<bar>v - of_int (wrap32 (\<Sum>p\<leftarrow>ps. sint (age p))) / of_nat (length family)\<bar>
          \<le> \<bar>of_int (wrap32 (\<Sum>p\<leftarrow>ps. sint (age p))) / of_nat (length family)\<bar> / 2 ^ 51
     \<and> (length family \<le> 2 ^ 53 \<longrightarrow>
          v = round_double (of_int (wrap32 (\<Sum>p\<leftarrow>ps. sint (age p))) / of_nat (length family)))
     \<and> (wrap32 (\<Sum>p\<leftarrow>ps. sint (age p)) \<noteq> (\<Sum>p\<leftarrow>ps. sint (age p)) \<longrightarrow>
          v \<noteq> of_int (\<Sum>p\<leftarrow>ps. sint (age p)) / of_nat (length family))"
proof -
  define S where "S = (\<Sum>p\<leftarrow>ps. sint (age p))"
  define v where "v = round_double (of_int (wrap32 S) / double_of_size (length family))"
  have len: "length family = length ps" using assms(1) by (metis length_map)
  have ne: "ps \<noteq> []" using assms(2) len by auto
  have a: "averageAge family w = Inr (Finite v, w)"
    using averageAge_finite [OF assms(1) ne] by (simp only: S_def [symmetric] v_def len)
  have e: "\<bar>v - of_int (wrap32 S) / of_nat (length family)\<bar>
           \<le> \<bar>of_int (wrap32 S) / of_nat (length family)\<bar> / 2 ^ 51"
    using average_error [OF ne, of "wrap32 S"] by (simp only: v_def len)
  have x: "length family \<le> 2 ^ 53 \<longrightarrow> v = round_double (of_int (wrap32 S) / of_nat (length family))"
    by (simp add: v_def double_of_size_exact)
  have d: "wrap32 S \<noteq> S \<longrightarrow> v \<noteq> of_int S / of_nat (length family)"
    using wrapped_average_differs [OF ne, of S] unfolding v_def len by blast
  show ?thesis unfolding S_def [symmetric] using a e x d by blast
qed

section \<open>The claims\<close>

text \<open>
  Claim C2. For a roster of \<open>N\<close> members, \<open>displayFamily\<close> writes the header line
  \<open>Family Members:\<close>, then exactly \<open>N\<close> lines, one per member in the order of the vector,
  each of the form \<open>Type: <role>, Name: <name>, Age: <age>\<close> with that member's role, name
  and age, and then the line of the average.
\<close>

theorem displayFamily_renders:
  assumes "map (heap w) family = map Some ps"
  shows "displayFamily show_double family w =
           Inr (w\<lparr>cout := cout w @ unlines (''Family Members:'' # map describe ps @
             [''Average Age: '' @ show_double
                (double_div (of_int (wrap32 (\<Sum>p\<leftarrow>ps. sint (age p)))) (double_of_size (length ps)))])\<rparr>)
         \<and> length (map describe ps) = length family"
proof -
  have "length family = length ps" using assms by (metis length_map)
  then show ?thesis using displayFamily_output [OF assms] by simp
qed

theorem displayFamily_renders_witness:
  "map (heap populated) [0, 1, 2, 3] =
     map Some [Mother ''Alice'' 45, Father ''Bob'' 48, Daughter ''Charlotte'' 15, Son ''David'' 12]
   \<and> displayFamily (\<lambda>d. ''30'') [0, 1, 2, 3] populated =
     Inr (populated\<lparr>cout := unlines
       [''Family Members:'',
        ''Type: Mother, Name: Alice, Age: 45'',
        ''Type: Father, Name: Bob, Age: 48'',
        ''Type: Daughter, Name: Charlotte, Age: 15'',
        ''Type: Son, Name: David, Age: 12'',
        ''Average Age: 30'']\<rparr>)"
proof -
  have c: "cout populated = []" by (simp add: populated_def new_def start_def)
  have "displayFamily (\<lambda>d. ''30'') [0, 1, 2, 3] populated =
     Inr (populated\<lparr>cout := unlines
       [''Family Members:'',
        ''Type: Mother, Name: Alice, Age: 45'',
        ''Type: Father, Name: Bob, Age: 48'',
        ''Type: Daughter, Name: Charlotte, Age: 15'',
        ''Type: Son, Name: David, Age: 12'',
        ''Average Age: 30'']\<rparr>)"
    using displayFamily_renders [OF populated_heap, of "\<lambda>d. ''30''"]
    by (simp add: c describe_def Mother_def Father_def Daughter_def Son_def Person_def
        show_int_def show_nat.simps digit_def)
  with populated_heap show ?thesis by (rule conjI)
qed

text \<open>
  Claim C3, as the specification states it: the average of an empty roster is a named
  failure, not a NaN. The program has no such failure: in the starting state, with an empty
  vector, the value of \<open>averageAge\<close> is the NaN that \<open>0.0 / 0.0\<close> gives.
\<close>

theorem averageAge_empty_counterexample:
  "averageAge [] start = Inr (NaN, start)"
  by (simp add: averageAge_def double_of_int_def double_of_size_def round_double_def double_div_def)

text \<open>
  Claim C3, amended. In every state the average of the empty roster is \<open>0.0 / 0.0\<close>, a NaN;
  no fault is raised, and \<open>displayFamily\<close> writes the header and the line of the average
  with that NaN.
\<close>

theorem averageAge_empty_is_NaN:
  "averageAge [] w = Inr (NaN, w)
   \<and> displayFamily show_double [] w =
       Inr (w\<lparr>cout := cout w @ unlines [''Family Members:'', ''Average Age: '' @ show_double NaN]\<rparr>)"
proof -
  have a: "averageAge [] w = Inr (NaN, w)"
    by (simp add: averageAge_def double_of_int_def double_of_size_def round_double_def double_div_def)
  have "displayFamily show_double [] w =
       Inr (w\<lparr>cout := cout w @ unlines [''Family Members:'', ''Average Age: '' @ show_double NaN]\<rparr>)"
    unfolding displayFamily_def Let_def
    by (simp add: averageAge_def double_of_int_def double_of_size_def round_double_def double_div_def
        endl_def put_string_def unlines_def)
  with a show ?thesis by (rule conjI)
qed

text \<open>
  Claim C5. The role of a member is fixed by the constructor that built it, whatever the
  name and the age: the \<open>type\<close> field of a \<open>Mother\<close>, \<open>Father\<close>, \<open>Daughter\<close> or \<open>Son\<close> is the
  string of that name, and \<open>display\<close> on such an object writes it after \<open>Type: \<close>.
\<close>

theorem role_fixed_by_variant:
  "type (Mother n a) = ''Mother'' \<and> type (Father n a) = ''Father''
   \<and> type (Daughter n a) = ''Daughter'' \<and> type (Son n a) = ''Son''
   \<and> display this (w\<lparr>heap := (heap w)(this \<mapsto> Mother n a)\<rparr>) =
       Inr (w\<lparr>heap := (heap w)(this \<mapsto> Mother n a),
              cout := cout w @ ''Type: Mother, Name: '' @ n @ '', Age: '' @ show_int (sint a) @ [CHR 0x0A]\<rparr>)
   \<and> display this (w\<lparr>heap := (heap w)(this \<mapsto> Father n a)\<rparr>) =
       Inr (w\<lparr>heap := (heap w)(this \<mapsto> Father n a),
              cout := cout w @ ''Type: Father, Name: '' @ n @ '', Age: '' @ show_int (sint a) @ [CHR 0x0A]\<rparr>)
   \<and> display this (w\<lparr>heap := (heap w)(this \<mapsto> Daughter n a)\<rparr>) =
       Inr (w\<lparr>heap := (heap w)(this \<mapsto> Daughter n a),
              cout := cout w @ ''Type: Daughter, Name: '' @ n @ '', Age: '' @ show_int (sint a) @ [CHR 0x0A]\<rparr>)
   \<and> display this (w\<lparr>heap := (heap w)(this \<mapsto> Son n a)\<rparr>) =
       Inr (w\<lparr>heap := (heap w)(this \<mapsto> Son n a),
              cout := cout w @ ''Type: Son, Name: '' @ n @ '', Age: '' @ show_int (sint a) @ [CHR 0x0A]\<rparr>)"
  by (simp add: Mother_def Father_def Daughter_def Son_def Person_def display_def
      put_string_def put_int_def endl_def)

text \<open>
  Claim C7. Construction accepts every name and every age, with no validation and no way to
  fail: the object carries exactly the name and the age supplied, each of the four
  constructors is \<open>Person\<close> with its role, and on the object that \<open>new\<close> returns \<open>getAge\<close>
  gives back the age and \<open>display\<close> writes the name and the age.
\<close>

theorem construction_total:
  "name (Person t n a) = n \<and> age (Person t n a) = a \<and> type (Person t n a) = t
   \<and> Mother n a = Person ''Mother'' n a \<and> Father n a = Person ''Father'' n a
   \<and> Daughter n a = Person ''Daughter'' n a \<and> Son n a = Person ''Son'' n a
   \<and> getAge (fst (new (Person t n a) w)) (snd (new (Person t n a) w)) =
       Inr (a, snd (new (Person t n a) w))
   \<and> display (fst (new (Person t n a) w)) (snd (new (Person t n a) w)) =
       Inr ((snd (new (Person t n a) w))
          \<lparr>cout := cout w @ ''Type: '' @ t @ '', Name: '' @ n @ '', Age: '' @ show_int (sint a) @ [CHR 0x0A]\<rparr>)"
  by (simp add: Mother_def Father_def Daughter_def Son_def Person_def display_def getAge_def new_def
      put_string_def put_int_def endl_def)

text \<open>The empty name, the age zero and a negative age are accepted like any other.\<close>

lemma construction_examples:
  "name (Mother [] 0) = [] \<and> sint (age (Son ''x'' (- 5))) = - 5
   \<and> display 0 (snd (new (Daughter [] (- 5)) start)) =
       Inr ((snd (new (Daughter [] (- 5)) start))\<lparr>cout := ''Type: Daughter, Name: , Age: -5'' @ [CHR 0x0A]\<rparr>)"
  by (simp add: Mother_def Father_def Daughter_def Son_def Person_def display_def getAge_def new_def
      put_string_def put_int_def endl_def start_def show_int_def show_nat.simps digit_def)

text \<open>
  Claim C4. The driver adds Mother("Alice", 45), Father("Bob", 48), Daughter("Charlotte", 15)
  and Son("David", 12) in that order. Run from the starting state, \<open>main\<close> returns 0 after
  writing the header, the four lines of the members in that order and the line of the
  average, and has released every object; the average computed for that roster is 30.0.
\<close>

theorem driver_scenario:
  "main show_double start =
     Inr (0, \<lparr>heap = Map.empty, next_addr = 4, cout = unlines
       [''Family Members:'',
        ''Type: Mother, Name: Alice, Age: 45'',
        ''Type: Father, Name: Bob, Age: 48'',
        ''Type: Daughter, Name: Charlotte, Age: 15'',
        ''Type: Son, Name: David, Age: 12'',
        ''Average Age: '' @ show_double (Finite 30)]\<rparr>)
   \<and> averageAge [0, 1, 2, 3] populated = Inr (Finite 30, populated)"
proof -
  have "main show_double start =
     Inr (0, \<lparr>heap = Map.empty, next_addr = 4, cout = unlines
       [''Family Members:'',
        ''Type: Mother, Name: Alice, Age: 45'',
        ''Type: Father, Name: Bob, Age: 48'',
        ''Type: Daughter, Name: Charlotte, Age: 15'',
        ''Type: Son, Name: David, Age: 12'',
        ''Average Age: '' @ show_double (Finite 30)]\<rparr>)"
    by (simp only: main_unfold populated_display delete_loop_populated sum.case)
  then show ?thesis using populated_average by (rule conjI)
qed

text \<open>
  Claim C1, as stated: for every roster of \<open>N \<ge> 1\<close> members the average is the sum of the
  ages divided by \<open>N\<close>. The sum is accumulated in an \<open>int\<close>: for the ages 2147483647 and 1
  it wraps to \<open>-2147483648\<close>, and the average is \<open>-1073741824\<close>, not \<open>1073741824\<close>.
\<close>

theorem averageAge_mean_counterexample:
  "averageAge [0, 1]
     \<lparr>heap = [0 \<mapsto> Mother ''A'' 2147483647, 1 \<mapsto> Son ''B'' 1], next_addr = 2, cout = []\<rparr> =
   Inr (Finite (- 1073741824),
     \<lparr>heap = [0 \<mapsto> Mother ''A'' 2147483647, 1 \<mapsto> Son ''B'' 1], next_addr = 2, cout = []\<rparr>)
   \<and> Finite (- 1073741824) \<noteq> Finite ((2147483647 + 1) / 2)"
  using overflow_average by simp

text \<open>
  Claim C1, amended. For every roster of \<open>N \<ge> 1\<close> members whose ages add up to a value
  within the range of \<open>int\<close>, the average is the double quotient of that sum, folded from
  left to right in the order of the vector, by the member count: it differs from the exact
  mean by at most the relative error \<open>2\<^sup>-\<^sup>5\<^sup>1\<close>, and for at most \<open>2\<^sup>5\<^sup>3\<close> members it is the
  double nearest to the exact mean.
\<close>

theorem averageAge_mean:
  assumes "map (heap w) family = map Some ps" and "family \<noteq> []"
    and "- (2 ^ 31) \<le> (\<Sum>p\<leftarrow>ps. sint (age p))" and "(\<Sum>p\<leftarrow>ps. sint (age p)) < 2 ^ 31"
  shows "\<exists>v. averageAge family w = Inr (Finite v, w)
     \<and> v = round_double (of_int (\<Sum>p\<leftarrow>ps. sint (age p)) / double_of_size (length family))
     \<and> \<bar>v - of_int (\<Sum>p\<leftarrow>ps. sint (age p)) / of_nat (length family)\<bar>
          \<le> \<bar>of_int (\<Sum>p\<leftarrow>ps. sint (age p)) / of_nat (length family)\<bar> / 2 ^ 51
     \<and> (length family \<le> 2 ^ 53 \<longrightarrow>
          v = round_double (of_int (\<Sum>p\<leftarrow>ps. sint (age p)) / of_nat (length family)))"
proof -
  define S where "S = (\<Sum>p\<leftarrow>ps. sint (age p))"
  have len: "length family = length ps" using assms(1) by (metis length_map)
  have ne: "ps \<noteq> []" using assms(2) len by auto
  have w: "wrap32 S = S" using assms(3,4) unfolding S_def by (rule wrap32_id)
  have a: "averageAge family w = Inr (Finite (round_double (of_int S / double_of_size (length family))), w)"
    using averageAge_finite [OF assms(1) ne] by (simp only: S_def [symmetric] w len)
  have e: "\<bar>round_double (of_int S / double_of_size (length family)) - of_int S / of_nat (length family)\<bar>
           \<le> \<bar>of_int S / of_nat (length family)\<bar> / 2 ^ 51"
    using average_error [OF ne, of S] by (simp only: len)
  have x: "length family \<le> 2 ^ 53 \<longrightarrow> round_double (of_int S / double_of_size (length family)) =
      round_double (of_int S / of_nat (length family))"
    by (simp add: double_of_size_exact)
  show ?thesis unfolding S_def [symmetric] using a e x by blast
qed

theorem averageAge_mean_witness:
  "map (heap populated) [0, 1, 2, 3] =
     map Some [Mother ''Alice'' 45, Father ''Bob'' 48, Daughter ''Charlotte'' 15, Son ''David'' 12]
   \<and> [0, 1, 2, 3] \<noteq> ([] :: addr list)
   \<and> - (2 ^ 31) \<le> (\<Sum>p\<leftarrow>[Mother ''Alice'' 45, Father ''Bob'' 48, Daughter ''Charlotte'' 15,
         Son ''David'' 12]. sint (age p))
   \<and> (\<Sum>p\<leftarrow>[Mother ''Alice'' 45, Father ''Bob'' 48, Daughter ''Charlotte'' 15,
         Son ''David'' 12]. sint (age p)) < 2 ^ 31
   \<and> length [0, 1, 2, 3 :: addr] \<le> 2 ^ 53
   \<and> (\<exists>v. averageAge [0, 1, 2, 3] populated = Inr (Finite v, populated)
          \<and> \<bar>v - 120 / 4\<bar> \<le> \<bar>120 / 4\<bar> / 2 ^ 51 \<and> v = round_double (120 / 4))"
proof -
  have h2: "[0, 1, 2, 3] \<noteq> ([] :: addr list)" by simp
  have h3: "- (2 ^ 31) \<le> (\<Sum>p\<leftarrow>[Mother ''Alice'' 45, Father ''Bob'' 48, Daughter ''Charlotte'' 15,
         Son ''David'' 12]. sint (age p))" by (simp only: driver_sum) simp
  have h4: "(\<Sum>p\<leftarrow>[Mother ''Alice'' 45, Father ''Bob'' 48, Daughter ''Charlotte'' 15,
         Son ''David'' 12]. sint (age p)) < 2 ^ 31" by (simp only: driver_sum) simp
  have len4: "length [0, 1, 2, 3 :: addr] = 4" by (simp add: eval_nat_numeral)
  have h5: "length [0, 1, 2, 3 :: addr] \<le> 2 ^ 53" by (simp only: len4) simp
  have "\<exists>v. averageAge [0, 1, 2, 3] populated = Inr (Finite v, populated)
          \<and> \<bar>v - 120 / 4\<bar> \<le> \<bar>120 / 4\<bar> / 2 ^ 51 \<and> v = round_double (120 / 4)"
    using averageAge_mean [OF populated_heap h2 h3 h4] h5
    by (simp only: driver_sum len4) auto
  with populated_heap h2 h3 h4 h5 show ?thesis by (intro conjI)
qed

text \<open>
  Claim C10. The ages are added up in a signed 32-bit \<open>int\<close> before the conversion to
  double: the value of \<open>totalAge\<close> after the loop is the exact sum reduced modulo \<open>2\<^sup>3\<^sup>2\<close>
  into the signed range, and the result is the double quotient of that value by the count
  (a NaN for the empty roster). When the exact sum lies within the range of \<open>int\<close>,
  \<open>totalAge\<close> is the sum and the result is a finite double equal to the sum divided by the count, within
  the relative error \<open>2\<^sup>-\<^sup>5\<^sup>1\<close> and the nearest double to it for at most \<open>2\<^sup>5\<^sup>3\<close>
  members. When the sum lies beyond the range, \<open>totalAge\<close> is not the sum, and the result
  is the quotient of the wrapped value by the count, which is not the true arithmetic mean.
\<close>

theorem totalAge_wraps:
  assumes "map (heap w) family = map Some ps"
  shows "\<exists>totalAge. age_loop family 0 w = Inr (totalAge, w)
     \<and> sint totalAge = wrap32 (\<Sum>p\<leftarrow>ps. sint (age p))
     \<and> averageAge family w =
         Inr (double_div (of_int (sint totalAge)) (double_of_size (length family)), w)
     \<and> (family = [] \<longrightarrow> averageAge family w = Inr (NaN, w))
     \<and> (family \<noteq> [] \<and> - (2 ^ 31) \<le> (\<Sum>p\<leftarrow>ps. sint (age p)) \<and> (\<Sum>p\<leftarrow>ps. sint (age p)) < 2 ^ 31 \<longrightarrow>
          sint totalAge = (\<Sum>p\<leftarrow>ps. sint (age p))
          \<and> (\<exists>v. averageAge family w = Inr (Finite v, w)
               \<and> \<bar>v - of_int (\<Sum>p\<leftarrow>ps. sint (age p)) / of_nat (length family)\<bar>
                    \<le> \<bar>of_int (\<Sum>p\<leftarrow>ps. sint (age p)) / of_nat (length family)\<bar> / 2 ^ 51
               \<and> (length family \<le> 2 ^ 53 \<longrightarrow>
                    v = round_double (of_int (\<Sum>p\<leftarrow>ps. sint (age p)) / of_nat (length family)))))
     \<and> ((\<Sum>p\<leftarrow>ps. sint (age p)) < - (2 ^ 31) \<or> 2 ^ 31 \<le> (\<Sum>p\<leftarrow>ps. sint (age p)) \<longrightarrow>
          sint totalAge \<noteq> (\<Sum>p\<leftarrow>ps. sint (age p))
          \<and> (\<exists>v. averageAge family w = Inr (Finite v, w)
               \<and> \<bar>v - of_int (sint totalAge) / of_nat (length family)\<bar>
                    \<le> \<bar>of_int (sint totalAge) / of_nat (length family)\<bar> / 2 ^ 51
               \<and> (length family \<le> 2 ^ 53 \<longrightarrow>
                    v = round_double (of_int (sint totalAge) / of_nat (length family)))
               \<and> v \<noteq> of_int (\<Sum>p\<leftarrow>ps. sint (age p)) / of_nat (length family)))"
proof -
  define S where "S = (\<Sum>p\<leftarrow>ps. sint (age p))"
  define N where "N = length family"
  define totalAge where "totalAge = sum_list (map age ps)"
  have len: "length family = length ps" using assms by (metis length_map)
  have l: "age_loop family 0 w = Inr (totalAge, w)"
    using age_loop_sum [OF assms, of 0] by (simp add: totalAge_def)
  have s: "sint totalAge = wrap32 S" unfolding totalAge_def S_def by (rule sint_sum_ages)
  have a: "averageAge family w = Inr (double_div (of_int (sint totalAge)) (double_of_size N), w)"
    using averageAge_value [OF assms] by (simp only: S_def [symmetric] len s N_def)
  have emp: "family = [] \<longrightarrow> averageAge family w = Inr (NaN, w)"
    by (simp add: averageAge_def double_of_int_def double_of_size_def round_double_def double_div_def)
  have pin: "family \<noteq> [] \<longrightarrow> (\<exists>v. averageAge family w = Inr (Finite v, w)
     \<and> \<bar>v - of_int (wrap32 S) / of_nat N\<bar> \<le> \<bar>of_int (wrap32 S) / of_nat N\<bar> / 2 ^ 51
     \<and> (N \<le> 2 ^ 53 \<longrightarrow> v = round_double (of_int (wrap32 S) / of_nat N))
     \<and> (wrap32 S \<noteq> S \<longrightarrow> v \<noteq> of_int S / of_nat N))"
  proof
    assume "family \<noteq> []"
    from averageAge_pinned [OF assms this]
    show "\<exists>v. averageAge family w = Inr (Finite v, w)
     \<and> \<bar>v - of_int (wrap32 S) / of_nat N\<bar> \<le> \<bar>of_int (wrap32 S) / of_nat N\<bar> / 2 ^ 51
     \<and> (N \<le> 2 ^ 53 \<longrightarrow> v = round_double (of_int (wrap32 S) / of_nat N))
     \<and> (wrap32 S \<noteq> S \<longrightarrow> v \<noteq> of_int S / of_nat N)"
      unfolding S_def [symmetric] N_def [symmetric] .
  qed
  have inr: "family \<noteq> [] \<and> - (2 ^ 31) \<le> S \<and> S < 2 ^ 31 \<longrightarrow> sint totalAge = S
      \<and> (\<exists>v. averageAge family w = Inr (Finite v, w)
           \<and> \<bar>v - of_int S / of_nat N\<bar> \<le> \<bar>of_int S / of_nat N\<bar> / 2 ^ 51
           \<and> (N \<le> 2 ^ 53 \<longrightarrow> v = round_double (of_int S / of_nat N)))"
  proof
    assume h: "family \<noteq> [] \<and> - (2 ^ 31) \<le> S \<and> S < 2 ^ 31"
    then have eq: "wrap32 S = S" by (simp add: wrap32_id)
    from h pin obtain v where "averageAge family w = Inr (Finite v, w)"
      and "\<bar>v - of_int (wrap32 S) / of_nat N\<bar> \<le> \<bar>of_int (wrap32 S) / of_nat N\<bar> / 2 ^ 51"
      and "N \<le> 2 ^ 53 \<longrightarrow> v = round_double (of_int (wrap32 S) / of_nat N)"
      by blast
    then have "averageAge family w = Inr (Finite v, w)
           \<and> \<bar>v - of_int S / of_nat N\<bar> \<le> \<bar>of_int S / of_nat N\<bar> / 2 ^ 51
           \<and> (N \<le> 2 ^ 53 \<longrightarrow> v = round_double (of_int S / of_nat N))"
      unfolding eq by blast
    moreover have "sint totalAge = S" using s eq by simp
    ultimately show "sint totalAge = S
      \<and> (\<exists>v. averageAge family w = Inr (Finite v, w)
           \<and> \<bar>v - of_int S / of_nat N\<bar> \<le> \<bar>of_int S / of_nat N\<bar> / 2 ^ 51
           \<and> (N \<le> 2 ^ 53 \<longrightarrow> v = round_double (of_int S / of_nat N)))"
      by blast
  qed
  have out: "S < - (2 ^ 31) \<or> 2 ^ 31 \<le> S \<longrightarrow> sint totalAge \<noteq> S
      \<and> (\<exists>v. averageAge family w = Inr (Finite v, w)
           \<and> \<bar>v - of_int (sint totalAge) / of_nat N\<bar> \<le> \<bar>of_int (sint totalAge) / of_nat N\<bar> / 2 ^ 51
           \<and> (N \<le> 2 ^ 53 \<longrightarrow> v = round_double (of_int (sint totalAge) / of_nat N))
           \<and> v \<noteq> of_int S / of_nat N)"
  proof
    assume o: "S < - (2 ^ 31) \<or> 2 ^ 31 \<le> S"
    then have ne: "wrap32 S \<noteq> S" using wrap32_range [of S] by auto
    have "ps \<noteq> []" using o by (auto simp: S_def)
    then have "family \<noteq> []" using len by auto
    with pin ne obtain v where "averageAge family w = Inr (Finite v, w)"
      and "\<bar>v - of_int (wrap32 S) / of_nat N\<bar> \<le> \<bar>of_int (wrap32 S) / of_nat N\<bar> / 2 ^ 51"
      and "N \<le> 2 ^ 53 \<longrightarrow> v = round_double (of_int (wrap32 S) / of_nat N)"
      and "v \<noteq> of_int S / of_nat N"
      by blast
    then have "averageAge family w = Inr (Finite v, w)
           \<and> \<bar>v - of_int (sint totalAge) / of_nat N\<bar> \<le> \<bar>of_int (sint totalAge) / of_nat N\<bar> / 2 ^ 51
           \<and> (N \<le> 2 ^ 53 \<longrightarrow> v = round_double (of_int (sint totalAge) / of_nat N))
           \<and> v \<noteq> of_int S / of_nat N"
      unfolding s by blast
    moreover have "sint totalAge \<noteq> S" using ne s by simp
    ultimately show "sint totalAge \<noteq> S
      \<and> (\<exists>v. averageAge family w = Inr (Finite v, w)
           \<and> \<bar>v - of_int (sint totalAge) / of_nat N\<bar> \<le> \<bar>of_int (sint totalAge) / of_nat N\<bar> / 2 ^ 51
           \<and> (N \<le> 2 ^ 53 \<longrightarrow> v = round_double (of_int (sint totalAge) / of_nat N))
           \<and> v \<noteq> of_int S / of_nat N)"
      by blast
  qed
  show ?thesis unfolding S_def [symmetric] N_def [symmetric] using l s a emp inr out by blast
qed

theorem totalAge_wraps_witness:
  "(map (heap populated) [0, 1, 2, 3] =
      map Some [Mother ''Alice'' 45, Father ''Bob'' 48, Daughter ''Charlotte'' 15, Son ''David'' 12]
    \<and> [0, 1, 2, 3] \<noteq> ([] :: addr list)
    \<and> - (2 ^ 31) \<le> (120 :: int) \<and> (120 :: int) < 2 ^ 31
    \<and> length [0, 1, 2, 3 :: addr] \<le> 2 ^ 53
    \<and> (\<exists>totalAge. age_loop [0, 1, 2, 3] 0 populated = Inr (totalAge, populated)
          \<and> sint totalAge = 120
          \<and> (\<exists>v. averageAge [0, 1, 2, 3] populated = Inr (Finite v, populated)
               \<and> \<bar>v - of_int 120 / of_nat (length [0, 1, 2, 3 :: addr])\<bar>
                    \<le> \<bar>of_int 120 / of_nat (length [0, 1, 2, 3 :: addr])\<bar> / 2 ^ 51
               \<and> v = round_double (of_int 120 / of_nat (length [0, 1, 2, 3 :: addr])))))
   \<and> (map (heap \<lparr>heap = [0 \<mapsto> Mother ''A'' 2147483647, 1 \<mapsto> Son ''B'' 1], next_addr = 2, cout = []\<rparr>) [0, 1] = map Some [Mother ''A'' 2147483647, Son ''B'' 1]
    \<and> 2 ^ 31 \<le> (2147483648 :: int)
    \<and> length [0, 1 :: addr] \<le> 2 ^ 53
    \<and> (\<exists>totalAge. age_loop [0, 1] 0 \<lparr>heap = [0 \<mapsto> Mother ''A'' 2147483647, 1 \<mapsto> Son ''B'' 1], next_addr = 2, cout = []\<rparr> = Inr (totalAge, \<lparr>heap = [0 \<mapsto> Mother ''A'' 2147483647, 1 \<mapsto> Son ''B'' 1], next_addr = 2, cout = []\<rparr>)
          \<and> sint totalAge = wrap32 2147483648
          \<and> sint totalAge \<noteq> 2147483648
          \<and> (\<exists>v. averageAge [0, 1] \<lparr>heap = [0 \<mapsto> Mother ''A'' 2147483647, 1 \<mapsto> Son ''B'' 1], next_addr = 2, cout = []\<rparr> = Inr (Finite v, \<lparr>heap = [0 \<mapsto> Mother ''A'' 2147483647, 1 \<mapsto> Son ''B'' 1], next_addr = 2, cout = []\<rparr>)
               \<and> \<bar>v - of_int (sint totalAge) / of_nat (length [0, 1 :: addr])\<bar>
                    \<le> \<bar>of_int (sint totalAge) / of_nat (length [0, 1 :: addr])\<bar> / 2 ^ 51
               \<and> v = round_double (of_int (sint totalAge) / of_nat (length [0, 1 :: addr]))
               \<and> v \<noteq> of_int 2147483648 / of_nat (length [0, 1 :: addr]))))
   \<and> (map (heap start) [] = map Some []
    \<and> averageAge [] start = Inr (NaN, start))"
proof -
  have r1: "[0, 1, 2, 3] \<noteq> ([] :: addr list)" "- (2 ^ 31) \<le> (120 :: int)" "(120 :: int) < 2 ^ 31"
    by simp_all
  have n1: "length [0, 1, 2, 3 :: addr] \<le> 2 ^ 53" by simp
  have r2: "2 ^ 31 \<le> (2147483648 :: int)" by simp
  have n2: "length [0, 1 :: addr] \<le> 2 ^ 53" by simp
  have e: "map (heap start) [] = map Some []" by simp
  have p1: "\<exists>totalAge. age_loop [0, 1, 2, 3] 0 populated = Inr (totalAge, populated)
          \<and> sint totalAge = 120
          \<and> (\<exists>v. averageAge [0, 1, 2, 3] populated = Inr (Finite v, populated)
               \<and> \<bar>v - of_int 120 / of_nat (length [0, 1, 2, 3 :: addr])\<bar>
                    \<le> \<bar>of_int 120 / of_nat (length [0, 1, 2, 3 :: addr])\<bar> / 2 ^ 51
               \<and> v = round_double (of_int 120 / of_nat (length [0, 1, 2, 3 :: addr])))"
    using totalAge_wraps [OF populated_heap] r1 n1 unfolding driver_sum by blast
  have p2: "\<exists>totalAge. age_loop [0, 1] 0 \<lparr>heap = [0 \<mapsto> Mother ''A'' 2147483647, 1 \<mapsto> Son ''B'' 1], next_addr = 2, cout = []\<rparr> = Inr (totalAge, \<lparr>heap = [0 \<mapsto> Mother ''A'' 2147483647, 1 \<mapsto> Son ''B'' 1], next_addr = 2, cout = []\<rparr>)
          \<and> sint totalAge = wrap32 2147483648
          \<and> sint totalAge \<noteq> 2147483648
          \<and> (\<exists>v. averageAge [0, 1] \<lparr>heap = [0 \<mapsto> Mother ''A'' 2147483647, 1 \<mapsto> Son ''B'' 1], next_addr = 2, cout = []\<rparr> = Inr (Finite v, \<lparr>heap = [0 \<mapsto> Mother ''A'' 2147483647, 1 \<mapsto> Son ''B'' 1], next_addr = 2, cout = []\<rparr>)
               \<and> \<bar>v - of_int (sint totalAge) / of_nat (length [0, 1 :: addr])\<bar>
                    \<le> \<bar>of_int (sint totalAge) / of_nat (length [0, 1 :: addr])\<bar> / 2 ^ 51
               \<and> v = round_double (of_int (sint totalAge) / of_nat (length [0, 1 :: addr]))
               \<and> v \<noteq> of_int 2147483648 / of_nat (length [0, 1 :: addr]))"
    using totalAge_wraps [OF overflow_heap] r2 n2 unfolding overflow_sum by blast
  have p3: "averageAge [] start = Inr (NaN, start)"
    using totalAge_wraps [OF e] by blast
  from populated_heap r1 n1 p1 overflow_heap r2 n2 p2 e p3 show ?thesis by (intro conjI)
qed

text \<open>
  Claim C6. Rendering and averaging are repeatable: when \<open>displayFamily\<close> has run, running
  it again on the same roster writes the same text once more, and the average computed
  before the call, after it, and after the second call is the same value.
\<close>

theorem repeated_calls_agree:
  assumes "displayFamily show_double family w = Inr w1"
  shows "\<exists>out d. w1 = w\<lparr>cout := cout w @ out\<rparr>
     \<and> displayFamily show_double family w1 = Inr (w1\<lparr>cout := cout w1 @ out\<rparr>)
     \<and> averageAge family w = Inr (d, w)
     \<and> averageAge family w1 = Inr (d, w1)"
proof -
  from displayFamily_valid [OF assms] obtain ps where v: "map (heap w) family = map Some ps" ..
  define d where "d = double_div (of_int (wrap32 (\<Sum>p\<leftarrow>ps. sint (age p)))) (double_of_size (length ps))"
  define out where "out = unlines (''Family Members:'' # map describe ps @
      [''Average Age: '' @ show_double d])"
  have w1: "w1 = w\<lparr>cout := cout w @ out\<rparr>"
    using displayFamily_output [OF v, of show_double] assms by (simp add: out_def d_def)
  have v1: "map (heap w1) family = map Some ps" using v by (simp add: w1)
  have "displayFamily show_double family w1 = Inr (w1\<lparr>cout := cout w1 @ out\<rparr>)"
    using displayFamily_output [OF v1, of show_double] by (simp add: out_def d_def)
  moreover have "averageAge family w = Inr (d, w)" using averageAge_value [OF v] by (simp add: d_def)
  moreover have "averageAge family w1 = Inr (d, w1)" using averageAge_value [OF v1] by (simp add: d_def)
  ultimately show ?thesis using w1 by blast
qed

theorem repeated_calls_agree_witness:
  "displayFamily (\<lambda>d. ''30'') [0, 1, 2, 3] populated = Inr (populated\<lparr>cout := unlines
       [''Family Members:'',
        ''Type: Mother, Name: Alice, Age: 45'',
        ''Type: Father, Name: Bob, Age: 48'',
        ''Type: Daughter, Name: Charlotte, Age: 15'',
        ''Type: Son, Name: David, Age: 12'',
        ''Average Age: 30'']\<rparr>)
   \<and> displayFamily (\<lambda>d. ''30'') [0, 1, 2, 3] (populated\<lparr>cout := unlines
       [''Family Members:'',
        ''Type: Mother, Name: Alice, Age: 45'',
        ''Type: Father, Name: Bob, Age: 48'',
        ''Type: Daughter, Name: Charlotte, Age: 15'',
        ''Type: Son, Name: David, Age: 12'',
        ''Average Age: 30'']\<rparr>) =
       Inr (populated\<lparr>cout := unlines
       [''Family Members:'',
        ''Type: Mother, Name: Alice, Age: 45'',
        ''Type: Father, Name: Bob, Age: 48'',
        ''Type: Daughter, Name: Charlotte, Age: 15'',
        ''Type: Son, Name: David, Age: 12'',
        ''Average Age: 30''] @ unlines
       [''Family Members:'',
        ''Type: Mother, Name: Alice, Age: 45'',
        ''Type: Father, Name: Bob, Age: 48'',
        ''Type: Daughter, Name: Charlotte, Age: 15'',
        ''Type: Son, Name: David, Age: 12'',
        ''Average Age: 30'']\<rparr>)
   \<and> averageAge [0, 1, 2, 3] populated = Inr (Finite 30, populated)
   \<and> averageAge [0, 1, 2, 3] (populated\<lparr>cout := unlines
       [''Family Members:'',
        ''Type: Mother, Name: Alice, Age: 45'',
        ''Type: Father, Name: Bob, Age: 48'',
        ''Type: Daughter, Name: Charlotte, Age: 15'',
        ''Type: Son, Name: David, Age: 12'',
        ''Average Age: 30'']\<rparr>) = Inr (Finite 30, (populated\<lparr>cout := unlines
       [''Family Members:'',
        ''Type: Mother, Name: Alice, Age: 45'',
        ''Type: Father, Name: Bob, Age: 48'',
        ''Type: Daughter, Name: Charlotte, Age: 15'',
        ''Type: Son, Name: David, Age: 12'',
        ''Average Age: 30'']\<rparr>))"
proof -
  from repeated_calls_agree [OF populated_display_30]
  obtain out d where w1: "(populated\<lparr>cout := unlines
       [''Family Members:'',
        ''Type: Mother, Name: Alice, Age: 45'',
        ''Type: Father, Name: Bob, Age: 48'',
        ''Type: Daughter, Name: Charlotte, Age: 15'',
        ''Type: Son, Name: David, Age: 12'',
        ''Average Age: 30'']\<rparr>) = populated\<lparr>cout := cout populated @ out\<rparr>"
    and again: "displayFamily (\<lambda>d. ''30'') [0, 1, 2, 3] (populated\<lparr>cout := unlines
       [''Family Members:'',
        ''Type: Mother, Name: Alice, Age: 45'',
        ''Type: Father, Name: Bob, Age: 48'',
        ''Type: Daughter, Name: Charlotte, Age: 15'',
        ''Type: Son, Name: David, Age: 12'',
        ''Average Age: 30'']\<rparr>) = Inr ((populated\<lparr>cout := unlines
       [''Family Members:'',
        ''Type: Mother, Name: Alice, Age: 45'',
        ''Type: Father, Name: Bob, Age: 48'',
        ''Type: Daughter, Name: Charlotte, Age: 15'',
        ''Type: Son, Name: David, Age: 12'',
        ''Average Age: 30'']\<rparr>)\<lparr>cout := cout (populated\<lparr>cout := unlines
       [''Family Members:'',
        ''Type: Mother, Name: Alice, Age: 45'',
        ''Type: Father, Name: Bob, Age: 48'',
        ''Type: Daughter, Name: Charlotte, Age: 15'',
        ''Type: Son, Name: David, Age: 12'',
        ''Average Age: 30'']\<rparr>) @ out\<rparr>)"
    and a0: "averageAge [0, 1, 2, 3] populated = Inr (d, populated)"
    and a1: "averageAge [0, 1, 2, 3] (populated\<lparr>cout := unlines
       [''Family Members:'',
        ''Type: Mother, Name: Alice, Age: 45'',
        ''Type: Father, Name: Bob, Age: 48'',
        ''Type: Daughter, Name: Charlotte, Age: 15'',
        ''Type: Son, Name: David, Age: 12'',
        ''Average Age: 30'']\<rparr>) = Inr (d, (populated\<lparr>cout := unlines
       [''Family Members:'',
        ''Type: Mother, Name: Alice, Age: 45'',
        ''Type: Father, Name: Bob, Age: 48'',
        ''Type: Daughter, Name: Charlotte, Age: 15'',
        ''Type: Son, Name: David, Age: 12'',
        ''Average Age: 30'']\<rparr>))"
    by blast
  from arg_cong [OF w1, of cout] have out: "out = unlines
       [''Family Members:'',
        ''Type: Mother, Name: Alice, Age: 45'',
        ''Type: Father, Name: Bob, Age: 48'',
        ''Type: Daughter, Name: Charlotte, Age: 15'',
        ''Type: Son, Name: David, Age: 12'',
        ''Average Age: 30'']"
    by (simp add: populated_cout)
  from a0 populated_average have d: "d = Finite 30" by simp
  have "displayFamily (\<lambda>d. ''30'') [0, 1, 2, 3] (populated\<lparr>cout := unlines
       [''Family Members:'',
        ''Type: Mother, Name: Alice, Age: 45'',
        ''Type: Father, Name: Bob, Age: 48'',
        ''Type: Daughter, Name: Charlotte, Age: 15'',
        ''Type: Son, Name: David, Age: 12'',
        ''Average Age: 30'']\<rparr>) =
       Inr (populated\<lparr>cout := unlines
       [''Family Members:'',
        ''Type: Mother, Name: Alice, Age: 45'',
        ''Type: Father, Name: Bob, Age: 48'',
        ''Type: Daughter, Name: Charlotte, Age: 15'',
        ''Type: Son, Name: David, Age: 12'',
        ''Average Age: 30''] @ unlines
       [''Family Members:'',
        ''Type: Mother, Name: Alice, Age: 45'',
        ''Type: Father, Name: Bob, Age: 48'',
        ''Type: Daughter, Name: Charlotte, Age: 15'',
        ''Type: Son, Name: David, Age: 12'',
        ''Average Age: 30'']\<rparr>)"
    using again by (simp add: out)
  with populated_display_30 a0 a1 show ?thesis by (simp only: d)
qed

text \<open>
  Claim C8. A member is immutable after construction: whatever object receives \<open>display\<close>
  or \<open>getAge\<close>, and whatever roster \<open>displayFamily\<close> runs on, a live object keeps its role,
  name and age, so that \<open>display\<close> writes the same description and \<open>getAge\<close> returns the
  same age after the call as before.
\<close>

theorem members_immutable:
  assumes "heap w a = Some p"
  shows "(\<forall>this w'. display this w = Inr w' \<longrightarrow> heap w' a = Some p)
     \<and> (\<forall>this v w'. getAge this w = Inr (v, w') \<longrightarrow> heap w' a = Some p)
     \<and> (\<forall>show_double family w'. displayFamily show_double family w = Inr w' \<longrightarrow> heap w' a = Some p)
     \<and> (\<forall>w'. display a w = Inr w' \<longrightarrow> display a w' = Inr (w'\<lparr>cout := cout w' @ describe p @ [CHR 0x0A]\<rparr>)
            \<and> getAge a w' = Inr (age p, w'))"
proof (intro conjI allI impI)
  fix this w' assume "display this w = Inr w'"
  from display_frame [OF this] assms show "heap w' a = Some p" by auto
next
  fix this v w' assume "getAge this w = Inr (v, w')"
  from getAge_frame [OF this] assms show "heap w' a = Some p" by auto
next
  fix show_double family w' assume "displayFamily show_double family w = Inr w'"
  from displayFamily_frame [OF this] assms show "heap w' a = Some p" by auto
next
  fix w' assume "display a w = Inr w'"
  from display_frame [OF this] assms have h: "heap w' a = Some p" by auto
  from display_Some [OF h] show "display a w' = Inr (w'\<lparr>cout := cout w' @ describe p @ [CHR 0x0A]\<rparr>)" .
next
  fix w' assume "display a w = Inr w'"
  from display_frame [OF this] assms have h: "heap w' a = Some p" by auto
  from getAge_Some [OF h] show "getAge a w' = Inr (age p, w')" .
qed

theorem members_immutable_witness:
  "heap populated 0 = Some (Mother ''Alice'' 45)
   \<and> display 1 populated = Inr (populated\<lparr>cout := (''Type: Father, Name: Bob, Age: 48'' @ [CHR 0x0A])\<rparr>)
   \<and> heap (populated\<lparr>cout := (''Type: Father, Name: Bob, Age: 48'' @ [CHR 0x0A])\<rparr>) 0 = Some (Mother ''Alice'' 45)
   \<and> getAge 1 populated = Inr (48, populated)
   \<and> displayFamily (\<lambda>d. ''30'') [0, 1, 2, 3] populated = Inr (populated\<lparr>cout := unlines
       [''Family Members:'',
        ''Type: Mother, Name: Alice, Age: 45'',
        ''Type: Father, Name: Bob, Age: 48'',
        ''Type: Daughter, Name: Charlotte, Age: 15'',
        ''Type: Son, Name: David, Age: 12'',
        ''Average Age: 30'']\<rparr>)
   \<and> heap (populated\<lparr>cout := unlines
       [''Family Members:'',
        ''Type: Mother, Name: Alice, Age: 45'',
        ''Type: Father, Name: Bob, Age: 48'',
        ''Type: Daughter, Name: Charlotte, Age: 15'',
        ''Type: Son, Name: David, Age: 12'',
        ''Average Age: 30'']\<rparr>) 0 = Some (Mother ''Alice'' 45)
   \<and> display 0 populated = Inr (populated\<lparr>cout := (''Type: Mother, Name: Alice, Age: 45'' @ [CHR 0x0A])\<rparr>)
   \<and> display 0 (populated\<lparr>cout := (''Type: Mother, Name: Alice, Age: 45'' @ [CHR 0x0A])\<rparr>) = Inr (populated\<lparr>cout := (''Type: Mother, Name: Alice, Age: 45'' @ [CHR 0x0A]) @ (''Type: Mother, Name: Alice, Age: 45'' @ [CHR 0x0A])\<rparr>)
   \<and> getAge 0 (populated\<lparr>cout := (''Type: Mother, Name: Alice, Age: 45'' @ [CHR 0x0A])\<rparr>) = Inr (45, populated\<lparr>cout := (''Type: Mother, Name: Alice, Age: 45'' @ [CHR 0x0A])\<rparr>)"
proof -
  note m = members_immutable [OF populated_0]
  from m populated_display_1
  have f1: "heap (populated\<lparr>cout := (''Type: Father, Name: Bob, Age: 48'' @ [CHR 0x0A])\<rparr>) 0 = Some (Mother ''Alice'' 45)"
    by blast
  from m populated_getAge_1 have "heap populated 0 = Some (Mother ''Alice'' 45)" by blast
  from m populated_display_30 have f3: "heap (populated\<lparr>cout := unlines
       [''Family Members:'',
        ''Type: Mother, Name: Alice, Age: 45'',
        ''Type: Father, Name: Bob, Age: 48'',
        ''Type: Daughter, Name: Charlotte, Age: 15'',
        ''Type: Son, Name: David, Age: 12'',
        ''Average Age: 30'']\<rparr>) 0 = Some (Mother ''Alice'' 45)" by blast
  from m populated_display_0
  have f4: "display 0 (populated\<lparr>cout := (''Type: Mother, Name: Alice, Age: 45'' @ [CHR 0x0A])\<rparr>) =
        Inr (populated\<lparr>cout := (''Type: Mother, Name: Alice, Age: 45'' @ [CHR 0x0A])\<rparr>\<lparr>cout := cout (populated\<lparr>cout := (''Type: Mother, Name: Alice, Age: 45'' @ [CHR 0x0A])\<rparr>) @
          describe (Mother ''Alice'' 45) @ [CHR 0x0A]\<rparr>)"
    and f5: "getAge 0 (populated\<lparr>cout := (''Type: Mother, Name: Alice, Age: 45'' @ [CHR 0x0A])\<rparr>) = Inr (age (Mother ''Alice'' 45), populated\<lparr>cout := (''Type: Mother, Name: Alice, Age: 45'' @ [CHR 0x0A])\<rparr>)"
    by blast+
  have f4': "display 0 (populated\<lparr>cout := (''Type: Mother, Name: Alice, Age: 45'' @ [CHR 0x0A])\<rparr>) = Inr (populated\<lparr>cout := (''Type: Mother, Name: Alice, Age: 45'' @ [CHR 0x0A]) @ (''Type: Mother, Name: Alice, Age: 45'' @ [CHR 0x0A])\<rparr>)"
    using f4 driver_lines by simp
  have f5': "getAge 0 (populated\<lparr>cout := (''Type: Mother, Name: Alice, Age: 45'' @ [CHR 0x0A])\<rparr>) = Inr (45, populated\<lparr>cout := (''Type: Mother, Name: Alice, Age: 45'' @ [CHR 0x0A])\<rparr>)"
    using f5 by (simp add: Mother_def Person_def)
  from populated_0 populated_display_1 f1 populated_getAge_1 populated_display_30 f3
    populated_display_0 f4' f5'
  show ?thesis by (intro conjI)
qed

text \<open>
  Claim C9. \<open>displayFamily\<close> takes the roster by reference to const and calls only const
  member functions: after it has run, the free store is what it was, so the roster has the
  same length and the same members in the same order, each with the role, name and age it
  had; only the output stream has grown.
\<close>

theorem displayFamily_preserves_roster:
  assumes "displayFamily show_double family w = Inr w'"
  shows "heap w' = heap w \<and> next_addr w' = next_addr w
     \<and> map (heap w') family = map (heap w) family
     \<and> (\<exists>ps. length ps = length family \<and> map (heap w) family = map Some ps
            \<and> map (heap w') family = map Some ps)"
proof -
  from displayFamily_frame [OF assms] obtain out where w': "w' = w\<lparr>cout := cout w @ out\<rparr>" ..
  from displayFamily_valid [OF assms] obtain ps where v: "map (heap w) family = map Some ps" ..
  have "length ps = length family" using v by (metis length_map)
  then show ?thesis using v by (auto simp: w')
qed

theorem displayFamily_preserves_roster_witness:
  "displayFamily (\<lambda>d. ''30'') [0, 1, 2, 3] populated = Inr (populated\<lparr>cout := unlines
       [''Family Members:'',
        ''Type: Mother, Name: Alice, Age: 45'',
        ''Type: Father, Name: Bob, Age: 48'',
        ''Type: Daughter, Name: Charlotte, Age: 15'',
        ''Type: Son, Name: David, Age: 12'',
        ''Average Age: 30'']\<rparr>)
   \<and> heap (populated\<lparr>cout := unlines
       [''Family Members:'',
        ''Type: Mother, Name: Alice, Age: 45'',
        ''Type: Father, Name: Bob, Age: 48'',
        ''Type: Daughter, Name: Charlotte, Age: 15'',
        ''Type: Son, Name: David, Age: 12'',
        ''Average Age: 30'']\<rparr>) = heap populated
   \<and> next_addr (populated\<lparr>cout := unlines
       [''Family Members:'',
        ''Type: Mother, Name: Alice, Age: 45'',
        ''Type: Father, Name: Bob, Age: 48'',
        ''Type: Daughter, Name: Charlotte, Age: 15'',
        ''Type: Son, Name: David, Age: 12'',
        ''Average Age: 30'']\<rparr>) = next_addr populated
   \<and> map (heap (populated\<lparr>cout := unlines
       [''Family Members:'',
        ''Type: Mother, Name: Alice, Age: 45'',
        ''Type: Father, Name: Bob, Age: 48'',
        ''Type: Daughter, Name: Charlotte, Age: 15'',
        ''Type: Son, Name: David, Age: 12'',
        ''Average Age: 30'']\<rparr>)) [0, 1, 2, 3] = map (heap populated) [0, 1, 2, 3]"
proof -
  from displayFamily_preserves_roster [OF populated_display_30]
  have "heap (populated\<lparr>cout := unlines
       [''Family Members:'',
        ''Type: Mother, Name: Alice, Age: 45'',
        ''Type: Father, Name: Bob, Age: 48'',
        ''Type: Daughter, Name: Charlotte, Age: 15'',
        ''Type: Son, Name: David, Age: 12'',
        ''Average Age: 30'']\<rparr>) = heap populated
   \<and> next_addr (populated\<lparr>cout := unlines
       [''Family Members:'',
        ''Type: Mother, Name: Alice, Age: 45'',
        ''Type: Father, Name: Bob, Age: 48'',
        ''Type: Daughter, Name: Charlotte, Age: 15'',
        ''Type: Son, Name: David, Age: 12'',
        ''Average Age: 30'']\<rparr>) = next_addr populated
   \<and> map (heap (populated\<lparr>cout := unlines
       [''Family Members:'',
        ''Type: Mother, Name: Alice, Age: 45'',
        ''Type: Father, Name: Bob, Age: 48'',
        ''Type: Daughter, Name: Charlotte, Age: 15'',
        ''Type: Son, Name: David, Age: 12'',
        ''Average Age: 30'']\<rparr>)) [0, 1, 2, 3] = map (heap populated) [0, 1, 2, 3]"
    by blast
  with populated_display_30 show ?thesis by (rule conjI)
qed

end
